theory Spec2Isabelle
  imports Main
begin

text \<open>
  The sender of instruction sets (\<open>SmartInstructionSender\<close>) and the submission of one signed
  transaction (connectionTools.ts), as functions on an explicit state, with the answers of
  the ledger and of the wallet as parameters and the calls and callbacks of a run recorded
  in a trace.
\<close>

section \<open>Data model\<close>

text \<open>
  Slots are JavaScript numbers read from the ledger; block hashes and transaction ids are
  strings. Public keys, instructions and signers are opaque to the sender and are
  represented by numbers.
\<close>

type_synonym slot = int
type_synonym blockhash = string
type_synonym txid = string
type_synonym pubkey = nat
type_synonym instruction = nat
type_synonym signer = nat

text \<open>The interface \<open>InstructionSet\<close> of types.ts.\<close>

record InstructionSet =
  signers :: "signer list"
  instructions :: "instruction list"

text \<open>
  What the sender puts into a web3.js \<open>Transaction\<close>: the fee payer and block hash given to
  the constructor, the instructions passed to \<open>add\<close>, the signers passed to
  \<open>partialSign\<close>, and whether the wallet has signed the object.
\<close>

record Transaction =
  feePayer :: "pubkey option"
  recentBlockhash :: blockhash
  txInstructions :: "instruction list"
  partialSignatures :: "signer list"
  walletSigned :: bool

text \<open>A thrown JavaScript \<open>Error\<close> with its message.\<close>

datatype js_error = JsError (message: string)

text \<open>The type \<open>SendAndConfirmError\<close> of connectionTools.ts.\<close>

datatype err_type = tx_error | timeout | misc_error

datatype SendAndConfirmError =
  SendAndConfirmError (etype: err_type) (inner: string) (etxid: "txid option")

text \<open>The type \<open>SendSignedTransactionResult\<close> of connectionTools.ts.\<close>

datatype SendSignedTransactionResult =
    Sent txid slot
  | NotSent SendAndConfirmError

text \<open>
  The value bound to \<open>result.err\<close> in \<open>send\<close>, which is also what the retry wrapper
  rejects with: a classified error returned by \<open>sendSignedTransaction\<close>, or a raw thrown
  error, which has no \<open>type\<close> property.
\<close>

datatype err_value = Classified SendAndConfirmError | Raised js_error

fun err_type_of :: "err_value \<Rightarrow> err_type option" where
  "err_type_of (Classified e) = Some (etype e)"
| "err_type_of (Raised e) = None"

section \<open>The collaborators\<close>

text \<open>
  What the connection and the transaction object do during one call of
  \<open>sendSignedTransaction\<close>: \<open>serialize\<close> may throw, \<open>sendRawTransaction\<close> returns a
  transaction id or throws, \<open>confirmTransaction\<close> returns a status whose \<open>err\<close> is set or
  not, or throws, and \<open>getConfirmedTransaction\<close> returns a record with its slot, or null,
  or throws.
\<close>

record submission =
  serialize :: "js_error option"
  sendRawTransaction :: "js_error + txid"
  confirmTransaction :: "js_error + string option"
  getConfirmedTransaction :: "js_error + slot option"

text \<open>
  The wallet: its public key (null when not connected), and whether \<open>signAllTransactions\<close>
  signs the objects it is given in place, besides returning them signed, in the order
  given. The configuration: \<open>maxSigningAttempts\<close> is a count, 0 included.
\<close>

record WalletSigner =
  publicKey :: "pubkey option"
  signsInPlace :: bool

record SmartInstructionSenderConfiguration =
  maxSigningAttempts :: nat
  abortOnFailure :: bool
  commitment :: string

record SmartInstructionSender =
  wallet :: WalletSigner
  instructionSets :: "InstructionSet list"
  configuration :: SmartInstructionSenderConfiguration

text \<open>
  The answers of the ledger and of the wallet during one run of \<open>send\<close>, by call site.
  The first read of slot and block hash and the first signing round-trip are awaited
  outside every \<open>try\<close> block, so their rejection is an answer of its own. A submission is
  identified by the loop index and the value of \<open>retryNumber\<close>, and so are the reads
  made after its confirmation; the reads made by the retry handler by the loop index
  and the attempt number the handler receives. Every call site is reached at most once
  in a run, so any sequence of answers is such a table. The later reads and the later
  signing round-trips are taken to answer.
\<close>

record Environment =
  firstSlotAndBlockHash :: "js_error + slot \<times> blockhash"
  firstSignature :: "js_error option"
  submissionAt :: "nat \<Rightarrow> nat \<Rightarrow> submission"
  slotAndBlockHashAfter :: "nat \<Rightarrow> nat \<Rightarrow> slot \<times> blockhash"
  polledSlot :: "nat \<Rightarrow> nat \<Rightarrow> slot"
  slotAndBlockHashOnRetry :: "nat \<Rightarrow> nat \<Rightarrow> slot \<times> blockhash"

text \<open>
  The observable steps of a run, in order: the calls on the connection and on the wallet,
  and the three callbacks with the arguments they are called with. A callback that is
  not set is skipped by the optional call; the trace records the call site.
\<close>

datatype event =
    GetSlotAndCurrentBlockHash
  | GetSlot
  | SignAllTransactions "Transaction option list"
  | SendSigned nat "Transaction option"
  | OnProgress nat txid
  | OnReSign nat nat
  | OnFailure err_value nat nat "InstructionSet option"

section \<open>connectionTools.ts\<close>

fun startsWith :: "string \<Rightarrow> string \<Rightarrow> bool" where
  "startsWith cs [] = True"
| "startsWith [] (p # ps) = False"
| "startsWith (c # cs) (p # ps) = (c = p \<and> startsWith cs ps)"

text \<open>\<open>String.prototype.includes\<close>.\<close>

fun js_includes :: "string \<Rightarrow> string \<Rightarrow> bool" where
  "js_includes [] sub = (sub = [])"
| "js_includes (c # cs) sub = (startsWith (c # cs) sub \<or> js_includes cs sub)"

text \<open>The \<open>catch\<close> block of \<open>sendAndConfirmRawTransactionEx\<close>.\<close>

definition caught :: "js_error \<Rightarrow> txid option \<Rightarrow> SendAndConfirmError" where
  "caught e txid =
     SendAndConfirmError
       (if js_includes (message e) ''Transaction was not confirmed in'' then timeout else misc_error)
       (message e) txid"

definition sendAndConfirmRawTransactionEx :: "submission \<Rightarrow> SendAndConfirmError + txid" where
  "sendAndConfirmRawTransactionEx c =
     (case sendRawTransaction c of
        Inl e \<Rightarrow> Inl (caught e None)
      | Inr txid \<Rightarrow>
          (case confirmTransaction c of
             Inl e \<Rightarrow> Inl (caught e (Some txid))
           | Inr (Some status_err) \<Rightarrow> Inl (SendAndConfirmError tx_error status_err (Some txid))
           | Inr None \<Rightarrow> Inr txid))"

text \<open>
  \<open>sendSignedTransaction\<close> returns a result or throws: \<open>serialize\<close> and
  \<open>getConfirmedTransaction\<close> are called outside the \<open>try\<close> block of
  \<open>sendAndConfirmRawTransactionEx\<close>. The local \<open>slot\<close> starts at 0 and is only set when
  the lookup returns a record.
\<close>

definition sendSignedTransaction ::
  "Transaction \<Rightarrow> submission \<Rightarrow> js_error + SendSignedTransactionResult" where
  "sendSignedTransaction signedTransaction c =
     (case serialize c of
        Some e \<Rightarrow> Inl e
      | None \<Rightarrow>
          (case sendAndConfirmRawTransactionEx c of
             Inl err \<Rightarrow> Inr (NotSent err)
           | Inr txid \<Rightarrow>
               (case getConfirmedTransaction c of
                  Inl e \<Rightarrow> Inl e
                | Inr confirmation \<Rightarrow>
                    Inr (Sent txid (case confirmation of Some sl \<Rightarrow> sl | None \<Rightarrow> 0)))))"

section \<open>The sender\<close>

text \<open>
  JavaScript arrays: a write at an index past the end extends the array, leaving holes,
  and a read outside the array gives \<open>undefined\<close>. An array that may have holes is a list
  of options.
\<close>

definition js_set :: "'a option list \<Rightarrow> nat \<Rightarrow> 'a \<Rightarrow> 'a option list" where
  "js_set xs j v =
     (if j < length xs then xs[j := Some v]
      else xs @ replicate (j - length xs) None @ [Some v])"

definition js_get :: "'a list \<Rightarrow> int \<Rightarrow> 'a option" where
  "js_get xs k = (if 0 \<le> k \<and> k < int (length xs) then Some (xs ! nat k) else None)"

text \<open>
  \<open>new Transaction({feePayer, recentBlockhash}).add(...instructions)\<close>, followed by
  \<open>partialSign(...signers)\<close> when there are signers. The class \<open>Transaction\<close> belongs to
  web3.js: its method \<open>add\<close> throws \<open>No instructions\<close> when it is given no instruction,
  which is why \<open>send\<close> filters the empty sets out before it builds.
\<close>

definition newTransaction ::
  "pubkey option \<Rightarrow> blockhash \<Rightarrow> InstructionSet \<Rightarrow> js_error + Transaction" where
  "newTransaction payer bh iset =
     (if instructions iset = [] then Inl (JsError ''No instructions'')
      else (let t = \<lparr>feePayer = payer, recentBlockhash = bh,
                      txInstructions = instructions iset,
                      partialSignatures = [], walletSigned = False\<rparr>
            in Inr (if signers iset \<noteq> [] then t\<lparr>partialSignatures := signers iset\<rparr> else t)))"

definition walletSign :: "Transaction \<Rightarrow> Transaction" where
  "walletSign t = t\<lparr>walletSigned := True\<rparr>"

text \<open>The variables of \<open>send\<close> and of its loop body, and the trace so far.\<close>

record send_state =
  slot :: slot
  currentBlock :: blockhash
  signedTXs :: "Transaction option list"
  successfulItems :: nat
  tx :: "Transaction option"
  retryNumber :: nat
  events :: "event list"

text \<open>
  The \<open>for\<close> loop of \<open>signAndRebuildTransactionsFromInstructionSets\<close>, from \<open>j\<close>: the error
  thrown, if any, and the array as the loop leaves it. The loop reads
  \<open>this.instructionSets[j]\<close>, the list as the caller gave it, and runs up to its length.
  When a transaction cannot be built the loop ends there, and the entries written before
  stay written.
\<close>

function rebuild_loop ::
  "SmartInstructionSender \<Rightarrow> blockhash \<Rightarrow> nat \<Rightarrow> Transaction option list
     \<Rightarrow> js_error option \<times> Transaction option list"
where
  "rebuild_loop s bh j xs =
     (if j < length (instructionSets s)
      then (case newTransaction (publicKey (wallet s)) bh (instructionSets s ! j) of
              Inl e \<Rightarrow> (Some e, xs)
            | Inr t \<Rightarrow> rebuild_loop s bh (j + 1) (js_set xs j t))
      else (None, xs))"
  by pat_completeness auto
termination
  by (relation "measure (\<lambda>(s, bh, j, xs). length (instructionSets s) - j)") auto

declare rebuild_loop.simps [simp del]

text \<open>
  \<open>signAndRebuildTransactionsFromInstructionSets(signedTXs, index, blockhash, attempt)\<close>:
  the events it causes, the array after the call, and the value it returns or the error
  it throws. The callback comes first. The result of \<open>signAllTransactions\<close> is dropped, so
  the rebuilt transactions carry the wallet's signature only when the wallet signs in
  place.
\<close>

definition signAndRebuildTransactionsFromInstructionSets ::
  "SmartInstructionSender \<Rightarrow> Transaction option list \<Rightarrow> nat \<Rightarrow> blockhash \<Rightarrow> nat
     \<Rightarrow> event list \<times> Transaction option list \<times> (js_error + Transaction option)" where
  "signAndRebuildTransactionsFromInstructionSets s txs index bh attempt =
     (case rebuild_loop s bh index txs of
        (Some e, rebuilt) \<Rightarrow> ([OnReSign attempt index], rebuilt, Inl e)
      | (None, rebuilt) \<Rightarrow>
          (let signed = (if signsInPlace (wallet s)
                         then take index rebuilt @ map (map_option walletSign) (drop index rebuilt)
                         else rebuilt)
           in ([OnReSign attempt index, SignAllTransactions (drop index rebuilt)],
               signed,
               Inr (case drop index signed of [] \<Rightarrow> None | t # ts \<Rightarrow> t))))"

text \<open>How one run of the function given to the retry wrapper ends.\<close>

datatype attempt_outcome = Returned | Bailed err_value | Threw err_value

text \<open>
  The \<open>try\<close>/\<open>catch\<close> around \<open>sendSignedTransaction\<close>: the value of \<open>result\<close>, with
  \<open>Inl\<close> when \<open>result.err\<close> is set. A thrown error becomes \<open>result.err\<close> as it is. Calling
  the function with \<open>undefined\<close> throws at \<open>serialize\<close>.
\<close>

definition submit :: "Environment \<Rightarrow> nat \<Rightarrow> send_state \<Rightarrow> err_value + txid \<times> slot" where
  "submit env i st =
     (case tx st of
        None \<Rightarrow> Inl (Raised (JsError ''TypeError''))
      | Some t \<Rightarrow>
          (case sendSignedTransaction t (submissionAt env i (retryNumber st)) of
             Inl error \<Rightarrow> Inl (Raised error)
           | Inr (NotSent err) \<Rightarrow> Inl (Classified err)
           | Inr (Sent txid sl) \<Rightarrow> Inr (txid, sl)))"

text \<open>The state after \<open>retryNumber++\<close>.\<close>

definition counted :: "send_state \<Rightarrow> send_state" where
  "counted st = st\<lparr>retryNumber := retryNumber st + 1\<rparr>"

text \<open>
  The function given to the retry wrapper, for loop index \<open>i\<close>. An error thrown by the
  rebuild after a confirmation leaves the function as a thrown error.
\<close>

definition attempt ::
  "SmartInstructionSender \<Rightarrow> Environment \<Rightarrow> nat \<Rightarrow> send_state \<Rightarrow> attempt_outcome \<times> send_state" where
  "attempt s env i st0 =
     (let st1 = counted st0;
          st2 = st1\<lparr>events := events st1 @ [SendSigned i (tx st1)]\<rparr>
      in case submit env i st1 of
           Inl err \<Rightarrow>
             if err_type_of err = Some timeout
                \<and> maxSigningAttempts (configuration s) \<le> retryNumber st2
             then (Bailed (Raised (JsError ''MAX_RESIGN_ATTEMPTS_REACHED'')), st2)
             else if err_type_of err = Some timeout then (Threw err, st2)
             else if err_type_of err = Some misc_error then (Bailed err, st2)
             else (Bailed err, st2)
         | Inr (txid, result_slot) \<Rightarrow>
             (let st3 = st2\<lparr>events := events st2 @ [OnProgress i txid],
                            successfulItems := successfulItems st2 + 1\<rparr>
              in if slot st3 + 150 \<le> result_slot
                 then (if drop (i + 1) (signedTXs st3) \<noteq> []
                       then (let (newSlot, newCurrentBlock) =
                                   slotAndBlockHashAfter env i (retryNumber st3);
                                 st4 = st3\<lparr>slot := newSlot, currentBlock := newCurrentBlock,
                                           events := events st3 @ [GetSlotAndCurrentBlockHash]\<rparr>;
                                 (evs, txs, result) =
                                   signAndRebuildTransactionsFromInstructionSets s
                                     (signedTXs st4) (i + 1) newCurrentBlock 0;
                                 st5 = st4\<lparr>signedTXs := txs, events := events st4 @ evs\<rparr>
                             in case result of
                                  Inl e \<Rightarrow> (Threw (Raised e), st5)
                                | Inr first \<Rightarrow> (Returned, st5))
                       else (Returned, st3))
                 else (Returned, st3)))"

text \<open>
  The \<open>onRetry\<close> handler, for loop index \<open>i\<close>. When the rebuild throws, the handler ends
  there and \<open>tx\<close> keeps its value.
\<close>

definition onRetry ::
  "SmartInstructionSender \<Rightarrow> Environment \<Rightarrow> nat \<Rightarrow> err_value \<Rightarrow> nat \<Rightarrow> send_state \<Rightarrow> send_state" where
  "onRetry s env i error attempt_no st =
     (if err_type_of error = Some timeout
      then (let st1 = st\<lparr>events := events st @ [GetSlot]\<rparr>;
                slotResult = polledSlot env i attempt_no
            in if slot st1 + 150 \<le> slotResult
               then (let (newSlot, newCurrentBlock) = slotAndBlockHashOnRetry env i attempt_no;
                         st2 = st1\<lparr>slot := newSlot, currentBlock := newCurrentBlock,
                                   events := events st1 @ [GetSlotAndCurrentBlockHash]\<rparr>;
                         (evs, txs, result) =
                           signAndRebuildTransactionsFromInstructionSets s
                             (signedTXs st2) i newCurrentBlock attempt_no;
                         st3 = st2\<lparr>signedTXs := txs, events := events st2 @ evs\<rparr>
                     in case result of
                          Inl e \<Rightarrow> st3
                        | Inr first \<Rightarrow> st3\<lparr>tx := first\<rparr>)
               else st1)
      else st)"

text \<open>
  Modelled from the spec: the retry wrapper is the package async-retry, which is not
  among the sources. Following section 4.3 of the specification and the way \<open>send\<close> uses
  it: the function is run; when it returns the wrapper resolves; when it calls \<open>bail\<close>
  the wrapper rejects with the argument of \<open>bail\<close> and runs nothing more; when it throws
  and retries are left, the handler \<open>onRetry\<close> is run with the error and the number of
  the attempt that failed, and after it has ended the function is run again; when it
  throws and no retries are left the wrapper rejects with the error. The first argument
  is the number of retries left (the option \<open>retries\<close>), the second the attempt number,
  which starts at 1. The result is the rejection, if any.
\<close>

fun retry ::
  "SmartInstructionSender \<Rightarrow> Environment \<Rightarrow> nat \<Rightarrow> nat \<Rightarrow> nat \<Rightarrow> send_state
     \<Rightarrow> err_value option \<times> send_state" where
  "retry s env i 0 num st =
     (case attempt s env i st of
        (Returned, st') \<Rightarrow> (None, st')
      | (Bailed e, st') \<Rightarrow> (Some e, st')
      | (Threw e, st') \<Rightarrow> (Some e, st'))"
| "retry s env i (Suc r) num st =
     (case attempt s env i st of
        (Returned, st') \<Rightarrow> (None, st')
      | (Bailed e, st') \<Rightarrow> (Some e, st')
      | (Threw e, st') \<Rightarrow> retry s env i r (num + 1) (onRetry s env i e num st'))"

text \<open>
  One iteration of the \<open>for\<close> loop of \<open>send\<close>: the \<open>try\<close> block with the retry wrapper and
  the \<open>catch\<close> block. The first component tells whether the loop breaks.
\<close>

definition send_item ::
  "SmartInstructionSender \<Rightarrow> Environment \<Rightarrow> nat \<Rightarrow> send_state \<Rightarrow> bool \<times> send_state" where
  "send_item s env i st0 =
     (let st = st0\<lparr>tx := signedTXs st0 ! i, retryNumber := 0\<rparr>
      in case retry s env i (maxSigningAttempts (configuration s)) 1 st of
           (None, st') \<Rightarrow> (False, st')
         | (Some error, st') \<Rightarrow>
             (abortOnFailure (configuration s),
              st'\<lparr>events := events st' @
                     [OnFailure error i (successfulItems st')
                        (js_get (instructionSets s) (int (successfulItems st') - 1))]\<rparr>))"

subsection \<open>The loop of \<open>send\<close> terminates\<close>

lemma length_js_set: "length (js_set xs j v) = max (length xs) (Suc j)"
  by (simp add: js_set_def)

lemma length_rebuild_loop:
  "length xs \<le> length (snd (rebuild_loop s bh j xs))
   \<and> length (snd (rebuild_loop s bh j xs)) \<le> max (length xs) (length (instructionSets s))"
proof (induction s bh j xs rule: rebuild_loop.induct)
  case (1 s bh j xs)
  show ?case
  proof (cases "j < length (instructionSets s)")
    case False
    then show ?thesis by (subst (1 2) rebuild_loop.simps) simp
  next
    case True
    show ?thesis
    proof (cases "newTransaction (publicKey (wallet s)) bh (instructionSets s ! j)")
      case (Inl e)
      then show ?thesis using True by (subst (1 2) rebuild_loop.simps) simp
    next
      case (Inr t)
      have "rebuild_loop s bh j xs = rebuild_loop s bh (j + 1) (js_set xs j t)"
        using True Inr by (subst rebuild_loop.simps) simp
      then show ?thesis
        using "1.IH" [OF True Inr] True by (auto simp: length_js_set)
    qed
  qed
qed

lemma signAndRebuild_array:
  "fst (snd (signAndRebuildTransactionsFromInstructionSets s txs index bh a)) =
     (case fst (rebuild_loop s bh index txs) of
        Some e \<Rightarrow> snd (rebuild_loop s bh index txs)
      | None \<Rightarrow>
          if signsInPlace (wallet s)
          then take index (snd (rebuild_loop s bh index txs))
                 @ map (map_option walletSign) (drop index (snd (rebuild_loop s bh index txs)))
          else snd (rebuild_loop s bh index txs))"
  by (simp add: signAndRebuildTransactionsFromInstructionSets_def Let_def split_def
        split: option.splits)

lemma length_signAndRebuild:
  "length (fst (snd (signAndRebuildTransactionsFromInstructionSets s txs index bh a)))
     = length (snd (rebuild_loop s bh index txs))"
  by (auto simp: signAndRebuild_array split: option.splits)

lemma length_attempt:
  "length (signedTXs (snd (attempt s env i st)))
     \<le> max (length (signedTXs st)) (length (instructionSets s))"
  using length_rebuild_loop [of "signedTXs st" s]
  by (auto simp: attempt_def counted_def Let_def split_def length_signAndRebuild
        split: sum.splits prod.splits)

lemma length_onRetry:
  "length (signedTXs (onRetry s env i e a st))
     \<le> max (length (signedTXs st)) (length (instructionSets s))"
  using length_rebuild_loop [of "signedTXs st" s]
  by (auto simp: onRetry_def Let_def split_def length_signAndRebuild split: sum.splits)

lemma length_retry:
  "length (signedTXs (snd (retry s env i r num st)))
     \<le> max (length (signedTXs st)) (length (instructionSets s))"
proof (induction r arbitrary: num st)
  case 0
  show ?case
    using length_attempt [of s env i st]
    by (auto split: prod.splits attempt_outcome.splits)
next
  case (Suc r)
  show ?case
  proof (cases "attempt s env i st")
    case (Pair out st')
    have a: "length (signedTXs st') \<le> max (length (signedTXs st)) (length (instructionSets s))"
      using length_attempt [of s env i st] Pair by simp
    show ?thesis
    proof (cases out)
      case (Threw e)
      have "length (signedTXs (snd (retry s env i r (num + 1) (onRetry s env i e num st'))))
              \<le> max (length (signedTXs (onRetry s env i e num st'))) (length (instructionSets s))"
        by (rule Suc.IH)
      also have "\<dots> \<le> max (length (signedTXs st)) (length (instructionSets s))"
        using length_onRetry [of s env i e num st'] a by simp
      finally show ?thesis using Pair Threw by simp
    qed (use Pair a in simp_all)
  qed
qed

lemma length_send_item:
  "length (signedTXs (snd (send_item s env i st)))
     \<le> max (length (signedTXs st)) (length (instructionSets s))"
  using length_retry [of s env i "maxSigningAttempts (configuration s)" 1
                         "st\<lparr>tx := signedTXs st ! i, retryNumber := 0\<rparr>"]
  by (auto simp: send_item_def Let_def split: prod.splits option.splits)

lemma send_item_measure:
  assumes "i < length (signedTXs st)" and "send_item s env i st = (b, y)"
  shows "max (length (signedTXs y)) (length (instructionSets s)) - Suc i
           < max (length (signedTXs st)) (length (instructionSets s)) - i"
  using length_send_item [of s env i st] assms by simp

text \<open>The \<open>for\<close> loop of \<open>send\<close>, from index \<open>i\<close>. The bound \<open>signedTXs.length\<close> is read again at
  every iteration; a rebuild may lengthen the array up to the number of instruction sets.\<close>

function send_loop ::
  "SmartInstructionSender \<Rightarrow> Environment \<Rightarrow> nat \<Rightarrow> send_state \<Rightarrow> send_state" where
  "send_loop s env i st =
     (if i < length (signedTXs st)
      then (case send_item s env i st of
              (True, st') \<Rightarrow> st'
            | (False, st') \<Rightarrow> send_loop s env (i + 1) st')
      else st)"
  by pat_completeness auto
termination
  apply (relation "measure (\<lambda>(s, env, i, st). max (length (signedTXs st)) (length (instructionSets s)) - i)")
   apply simp
  apply (drule sym)
  apply simp
  apply (rule send_item_measure; assumption)
  done

declare send_loop.simps [simp del]


text \<open>
  The \<open>map\<close> of \<open>send\<close> over the instruction sets that passed the filter: an error thrown
  while building ends it.
\<close>

fun build_all :: "pubkey option \<Rightarrow> blockhash \<Rightarrow> InstructionSet list \<Rightarrow> js_error + Transaction list" where
  "build_all payer bh [] = Inr []"
| "build_all payer bh (iset # isets) =
     (case newTransaction payer bh iset of
        Inl e \<Rightarrow> Inl e
      | Inr t \<Rightarrow> (case build_all payer bh isets of Inl e \<Rightarrow> Inl e | Inr ts \<Rightarrow> Inr (t # ts)))"

text \<open>
  \<open>send\<close>. The result is the rejection of the returned promise together with the trace up
  to it, or the final state when the promise resolves. The message for a batch without
  instruction sets is the one of the compiled file; the TypeScript source has
  \<open>NO_INSTRUCTION_SETS\<close>.
\<close>

definition send ::
  "SmartInstructionSender \<Rightarrow> Environment \<Rightarrow> (js_error \<times> event list) + send_state" where
  "send s env =
     (if publicKey (wallet s) = None then Inl (JsError ''WALLET_NOT_CONNECTED'', [])
      else if instructionSets s = [] then Inl (JsError ''No instruction sets provided'', [])
      else (case firstSlotAndBlockHash env of
              Inl e \<Rightarrow> Inl (e, [GetSlotAndCurrentBlockHash])
            | Inr (slot0, currentBlock0) \<Rightarrow>
                (case build_all (publicKey (wallet s)) currentBlock0
                        (filter (\<lambda>i. instructions i \<noteq> []) (instructionSets s)) of
                   Inl e \<Rightarrow> Inl (e, [GetSlotAndCurrentBlockHash])
                 | Inr unsignedTXs \<Rightarrow>
                     (case firstSignature env of
                        Some e \<Rightarrow>
                          Inl (e, [GetSlotAndCurrentBlockHash,
                                   SignAllTransactions (map Some unsignedTXs)])
                      | None \<Rightarrow>
                          Inr (send_loop s env 0
                                 \<lparr>slot = slot0, currentBlock = currentBlock0,
                                  signedTXs = map (\<lambda>t. Some (walletSign t)) unsignedTXs,
                                  successfulItems = 0, tx = None, retryNumber = 0,
                                  events = [GetSlotAndCurrentBlockHash,
                                            SignAllTransactions (map Some unsignedTXs)]\<rparr>)))))"

text \<open>The trace of a run, whichever way it ends.\<close>

definition trace :: "(js_error \<times> event list) + send_state \<Rightarrow> event list" where
  "trace r = (case r of Inl (e, evs) \<Rightarrow> evs | Inr st \<Rightarrow> events st)"

section \<open>Facts about the rebuild\<close>

lemma js_set_no_holes:
  assumes "None \<notin> set xs" and "j \<le> length xs"
  shows "None \<notin> set (js_set xs j v)"
proof (cases "j < length xs")
  case True
  then have "set (xs[j := Some v]) \<subseteq> insert (Some v) (set xs)"
    by (simp add: set_update_subset_insert)
  then show ?thesis using True assms(1) by (auto simp: js_set_def)
next
  case False
  then show ?thesis using assms by (simp add: js_set_def)
qed

lemma rebuild_loop_no_holes:
  "None \<notin> set xs \<Longrightarrow> j \<le> length xs \<Longrightarrow> None \<notin> set (snd (rebuild_loop s bh j xs))"
proof (induction s bh j xs rule: rebuild_loop.induct)
  case (1 s bh j xs)
  show ?case
  proof (cases "j < length (instructionSets s)")
    case False
    then show ?thesis using "1.prems"(1) by (subst rebuild_loop.simps) simp
  next
    case True
    show ?thesis
    proof (cases "newTransaction (publicKey (wallet s)) bh (instructionSets s ! j)")
      case (Inl e)
      then show ?thesis using True "1.prems"(1) by (subst rebuild_loop.simps) simp
    next
      case (Inr t)
      have unfold: "rebuild_loop s bh j xs = rebuild_loop s bh (j + 1) (js_set xs j t)"
        using True Inr by (subst rebuild_loop.simps) simp
      have a: "None \<notin> set (js_set xs j t)"
        using "1.prems" by (rule js_set_no_holes)
      have b: "j + 1 \<le> length (js_set xs j t)"
        by (simp add: length_js_set)
      show ?thesis unfolding unfold by (rule "1.IH" [OF True Inr a b])
    qed
  qed
qed

lemma no_holes_signAndRebuild:
  assumes "None \<notin> set txs" and "index \<le> length txs"
  shows "None \<notin> set (fst (snd (signAndRebuildTransactionsFromInstructionSets s txs index bh a)))"
proof -
  let ?r = "snd (rebuild_loop s bh index txs)"
  have r: "None \<notin> set ?r" using assms by (rule rebuild_loop_no_holes)
  then have "None \<notin> set (take index ?r)" and "None \<notin> set (drop index ?r)"
    by (auto dest: in_set_takeD in_set_dropD)
  then have "None \<notin> set (take index ?r @ map (map_option walletSign) (drop index ?r))"
    by auto
  then show ?thesis using r by (simp add: signAndRebuild_array split: option.splits)
qed

lemma length_signAndRebuild_mono:
  "length txs \<le> length (fst (snd (signAndRebuildTransactionsFromInstructionSets s txs index bh a)))"
  using length_rebuild_loop [of txs s bh index] by (simp add: length_signAndRebuild)

lemma slice_first:
  "(case drop n xs of [] \<Rightarrow> None | t # ts \<Rightarrow> t) = (if n < length xs then xs ! n else None)"
  by (cases "n < length xs") (simp_all add: Cons_nth_drop_Suc [symmetric])

lemma signAndRebuild_returns:
  "snd (snd (signAndRebuildTransactionsFromInstructionSets s txs index bh a)) = Inr first \<Longrightarrow>
     first = (let txs' = fst (snd (signAndRebuildTransactionsFromInstructionSets s txs index bh a))
              in if index < length txs' then txs' ! index else None)"
  by (auto simp: signAndRebuildTransactionsFromInstructionSets_def Let_def slice_first split_def
        split: option.splits)

lemma signAndRebuild_events:
  "fst (signAndRebuildTransactionsFromInstructionSets s txs index bh a)
     = OnReSign a index #
         (case fst (rebuild_loop s bh index txs) of
            Some e \<Rightarrow> []
          | None \<Rightarrow> [SignAllTransactions (drop index (snd (rebuild_loop s bh index txs)))])"
  by (simp add: signAndRebuildTransactionsFromInstructionSets_def Let_def split_def
        split: option.splits)

lemma attempt_events:
  "events (snd (attempt s env i st)) =
     events st @ SendSigned i (tx st) #
       (case submit env i (counted st) of
          Inl err \<Rightarrow> []
        | Inr (txid, rs) \<Rightarrow>
            OnProgress i txid #
              (if slot st + 150 \<le> rs \<and> Suc i < length (signedTXs st)
               then GetSlotAndCurrentBlockHash # OnReSign 0 (Suc i) #
                      (case fst (rebuild_loop s
                               (snd (slotAndBlockHashAfter env i (Suc (retryNumber st)))) (Suc i)
                                   (signedTXs st)) of
                         Some e \<Rightarrow> []
                       | None \<Rightarrow>
                           [SignAllTransactions
                              (drop (Suc i)
                                 (snd (rebuild_loop s
                               (snd (slotAndBlockHashAfter env i (Suc (retryNumber st)))) (Suc i)
                                         (signedTXs st))))])
               else []))"
  by (auto simp: attempt_def counted_def Let_def split_def signAndRebuild_events
        split: sum.splits)

lemma attempt_tx: "tx (snd (attempt s env i st)) = tx st"
  by (auto simp: attempt_def counted_def Let_def split_def split: sum.splits)

lemma attempt_failed_outcome:
  "submit env i (counted st) = Inl err \<Longrightarrow>
     fst (attempt s env i st) =
       (if err_type_of err = Some timeout
        then (if maxSigningAttempts (configuration s) \<le> Suc (retryNumber st)
              then Bailed (Raised (JsError ''MAX_RESIGN_ATTEMPTS_REACHED''))
              else Threw err)
        else Bailed err)"
  by (auto simp: attempt_def counted_def Let_def)

lemma attempt_failed_state:
  "submit env i (counted st) = Inl err \<Longrightarrow>
     snd (attempt s env i st) =
       st\<lparr>retryNumber := Suc (retryNumber st), events := events st @ [SendSigned i (tx st)]\<rparr>"
  by (auto simp: attempt_def counted_def Let_def)

lemma onRetry_events:
  "events (onRetry s env i e a st) =
     events st @
       (if err_type_of e = Some timeout
        then GetSlot #
               (if slot st + 150 \<le> polledSlot env i a
                then GetSlotAndCurrentBlockHash # OnReSign a i #
                       (case fst (rebuild_loop s (snd (slotAndBlockHashOnRetry env i a)) i
                                    (signedTXs st)) of
                          Some e \<Rightarrow> []
                        | None \<Rightarrow>
                            [SignAllTransactions
                               (drop i (snd (rebuild_loop s (snd (slotAndBlockHashOnRetry env i a)) i
                                               (signedTXs st))))])
                else [])
        else [])"
  by (auto simp: onRetry_def Let_def split_def signAndRebuild_events split: sum.splits)

lemma onRetry_retryNumber: "retryNumber (onRetry s env i e a st) = retryNumber st"
  by (auto simp: onRetry_def Let_def split_def split: sum.splits)


section \<open>Invariants of the loops\<close>

lemma retry_invariant:
  assumes "P st"
    and "\<And>st. P st \<Longrightarrow> P (snd (attempt s env i st))"
    and "\<And>st e n. P st \<Longrightarrow> P (onRetry s env i e n st)"
  shows "P (snd (retry s env i r num st))"
  using assms(1)
proof (induction r arbitrary: num st)
  case 0
  then show ?case
    using assms(2) [of st] by (auto split: prod.splits attempt_outcome.splits)
next
  case (Suc r)
  obtain out st' where a: "attempt s env i st = (out, st')"
    by (cases "attempt s env i st")
  have p: "P st'" using assms(2) [OF Suc.prems] a by simp
  show ?case
  proof (cases out)
    case (Threw e)
    have "P (onRetry s env i e num st')" using p by (rule assms(3))
    then have "P (snd (retry s env i r (num + 1) (onRetry s env i e num st')))"
      by (rule Suc.IH)
    then show ?thesis using a Threw by simp
  qed (use a p in simp_all)
qed

lemma send_item_invariant:
  assumes "P st"
    and "\<And>st. P st \<Longrightarrow> P (st\<lparr>tx := signedTXs st ! i, retryNumber := 0\<rparr>)"
    and "\<And>st. P st \<Longrightarrow> P (snd (attempt s env i st))"
    and "\<And>st e n. P st \<Longrightarrow> P (onRetry s env i e n st)"
    and "\<And>st e. P st \<Longrightarrow>
           P (st\<lparr>events := events st @
                  [OnFailure e i (successfulItems st)
                     (js_get (instructionSets s) (int (successfulItems st) - 1))]\<rparr>)"
  shows "P (snd (send_item s env i st))"
proof -
  let ?st = "st\<lparr>tx := signedTXs st ! i, retryNumber := 0\<rparr>"
  have "P ?st" using assms(1) by (rule assms(2))
  then have p: "P (snd (retry s env i (maxSigningAttempts (configuration s)) 1 ?st))"
    using assms(3,4) by (rule retry_invariant)
  obtain res st' where r: "retry s env i (maxSigningAttempts (configuration s)) 1 ?st = (res, st')"
    by (cases "retry s env i (maxSigningAttempts (configuration s)) 1 ?st")
  show ?thesis
  proof (cases res)
    case None
    then show ?thesis using p r by (simp add: send_item_def Let_def)
  next
    case (Some e)
    have "P st'" using p r by simp
    then show ?thesis using r Some assms(5) [of st' e] by (simp add: send_item_def Let_def)
  qed
qed

lemma send_loop_invariant:
  assumes "P st"
    and "\<And>j st. i \<le> j \<Longrightarrow> P st \<Longrightarrow> j < length (signedTXs st) \<Longrightarrow> P (snd (send_item s env j st))"
  shows "P (send_loop s env i st)"
  using assms
proof (induction s env i st rule: send_loop.induct)
  case (1 s env i st)
  show ?case
  proof (cases "i < length (signedTXs st)")
    case False
    then show ?thesis using "1.prems"(1) by (subst send_loop.simps) simp
  next
    case True
    obtain b st' where it: "send_item s env i st = (b, st')"
      by (cases "send_item s env i st")
    have p: "P st'" using "1.prems"(2) [OF le_refl "1.prems"(1) True] it by simp
    show ?thesis
    proof (cases b)
      case True
      then show ?thesis using \<open>i < length (signedTXs st)\<close> it p by (subst send_loop.simps) simp
    next
      case False
      then have bf: "b = False" by simp
      have "P (send_loop s env (i + 1) st')"
      proof (rule "1.IH" [OF True it [symmetric] bf p])
        fix j st''
        assume "i + 1 \<le> j" and "P st''" and "j < length (signedTXs st'')"
        then show "P (snd (send_item s env j st''))"
          using "1.prems"(2) [of j st''] by simp
      qed
      then show ?thesis using \<open>i < length (signedTXs st)\<close> it False by (subst send_loop.simps) simp
    qed
  qed
qed


text \<open>
  The predicate of section 4.2 of the specification, in the specification's words. The
  code has no such function: \<open>attempt\<close> and \<open>onRetry\<close> write the comparison inline.
\<close>

definition isExpired :: "slot \<Rightarrow> slot \<Rightarrow> bool" where
  "isExpired confirmedSlot baselineSlot \<longleftrightarrow> confirmedSlot \<ge> baselineSlot + 150"

fun is_resign :: "event \<Rightarrow> bool" where
  "is_resign (OnReSign a j) = True"
| "is_resign e = False"

lemma submit_confirmed:
  "submit env i st = Inr (txid, rs) \<Longrightarrow>
     \<exists>t. sendSignedTransaction t (submissionAt env i (retryNumber st)) = Inr (Sent txid rs)"
  by (auto simp: submit_def split: option.splits sum.splits SendSignedTransactionResult.splits)

lemma attempt_slot:
  "slot (snd (attempt s env i st)) =
     (case submit env i (counted st) of
        Inl err \<Rightarrow> slot st
      | Inr (txid, rs) \<Rightarrow>
          if slot st + 150 \<le> rs \<and> Suc i < length (signedTXs st)
          then fst (slotAndBlockHashAfter env i (Suc (retryNumber st))) else slot st)"
  by (auto simp: attempt_def counted_def Let_def split_def split: sum.splits)

lemma onRetry_slot:
  "slot (onRetry s env i e a st) =
     (if err_type_of e = Some timeout \<and> slot st + 150 \<le> polledSlot env i a
      then fst (slotAndBlockHashOnRetry env i a) else slot st)"
  by (auto simp: onRetry_def Let_def split_def split: sum.splits)

lemma no_resign_in_loop:
  assumes confirmed: "\<And>i n t txid cs.
        sendSignedTransaction t (submissionAt env i n) = Inr (Sent txid cs) \<Longrightarrow> \<not> isExpired cs slot0"
    and polled: "\<And>i n. \<not> isExpired (polledSlot env i n) slot0"
    and start: "slot st = slot0" "filter is_resign (events st) = []"
  shows "filter is_resign (events (send_loop s env i st)) = []"
proof -
  let ?P = "\<lambda>st. slot st = slot0 \<and> filter is_resign (events st) = []"
  have att: "?P (snd (attempt s env j st))" if "?P st" for j st
  proof (cases "submit env j (counted st)")
    case (Inl err)
    then show ?thesis using that by (simp add: attempt_events attempt_slot)
  next
    case (Inr r)
    obtain txid rs where r: "r = (txid, rs)" by (cases r)
    have "\<not> isExpired rs slot0"
      using submit_confirmed [of env j "counted st" txid rs] confirmed Inr r by blast
    then show ?thesis using that Inr r by (simp add: attempt_events attempt_slot isExpired_def)
  qed
  have onr: "?P (onRetry s env j e n st)" if "?P st" for j e n st
    using that polled [of j n] by (simp add: onRetry_events onRetry_slot isExpired_def)
  have item: "?P (snd (send_item s env j st))" if "?P st" for j st
    using that
  proof (rule send_item_invariant)
    show "?P (snd (attempt s env j st))" if "?P st" for st using that by (rule att)
    show "?P (onRetry s env j e n st)" if "?P st" for st e n using that by (rule onr)
  qed simp_all
  have "?P (send_loop s env i st)"
    by (rule send_loop_invariant [where P = ?P]) (use start item in blast)+
  then show ?thesis by simp
qed

lemma confirmed_events:
  assumes "submit env i (counted st) = Inr (txid, confirmedSlot)"
  shows "events (snd (attempt s env i st)) =
          events st @ [SendSigned i (tx st), OnProgress i txid] @
            (if isExpired confirmedSlot (slot st) \<and> Suc i < length (signedTXs st)
             then GetSlotAndCurrentBlockHash # OnReSign 0 (Suc i) #
                    (case fst (rebuild_loop s
                               (snd (slotAndBlockHashAfter env i (Suc (retryNumber st)))) (Suc i)
                                 (signedTXs st)) of
                       Some e \<Rightarrow> []
                     | None \<Rightarrow>
                         [SignAllTransactions
                            (drop (Suc i)
                               (snd (rebuild_loop s
                               (snd (slotAndBlockHashAfter env i (Suc (retryNumber st)))) (Suc i)
                                       (signedTXs st))))])
             else [])"
  using assms by (simp add: attempt_events isExpired_def)


section \<open>Events of one index\<close>

fun is_send_at :: "nat \<Rightarrow> event \<Rightarrow> bool" where
  "is_send_at k (SendSigned i t) = (i = k)"
| "is_send_at k e = False"

fun is_failure_at :: "nat \<Rightarrow> event \<Rightarrow> bool" where
  "is_failure_at k (OnFailure e i n iset) = (i = k)"
| "is_failure_at k e = False"

fun is_progress_from :: "nat \<Rightarrow> event \<Rightarrow> bool" where
  "is_progress_from k (OnProgress i t) = (k \<le> i)"
| "is_progress_from k e = False"

fun is_timeout :: "js_error + SendSignedTransactionResult \<Rightarrow> bool" where
  "is_timeout (Inr (NotSent err)) = (etype err = timeout)"
| "is_timeout r = False"

text \<open>A filter on events that lets through nothing an attempt or a handler for index \<open>i\<close> adds.\<close>

definition ignores_handler :: "(event \<Rightarrow> bool) \<Rightarrow> bool" where
  "ignores_handler Q \<longleftrightarrow>
     \<not> Q GetSlot \<and> \<not> Q GetSlotAndCurrentBlockHash \<and> (\<forall>a j. \<not> Q (OnReSign a j))
     \<and> (\<forall>x. \<not> Q (SignAllTransactions x))"

definition ignores_attempt :: "(event \<Rightarrow> bool) \<Rightarrow> nat \<Rightarrow> bool" where
  "ignores_attempt Q i \<longleftrightarrow>
     ignores_handler Q \<and> (\<forall>t. \<not> Q (SendSigned i t)) \<and> (\<forall>t. \<not> Q (OnProgress i t))"

lemma onRetry_filter:
  "ignores_handler Q \<Longrightarrow> filter Q (events (onRetry s env i e a st)) = filter Q (events st)"
  by (simp add: onRetry_events ignores_handler_def)

lemma attempt_filter:
  "ignores_attempt Q i \<Longrightarrow> filter Q (events (snd (attempt s env i st))) = filter Q (events st)"
  by (simp add: attempt_events ignores_attempt_def ignores_handler_def split: sum.splits prod.splits)

lemma send_item_filter:
  assumes "ignores_attempt Q i" and "\<And>e n x. \<not> Q (OnFailure e i n x)"
  shows "filter Q (events (snd (send_item s env i st))) = filter Q (events st)"
proof -
  let ?P = "\<lambda>st' :: send_state. filter Q (events st') = filter Q (events st)"
  show ?thesis
  proof (rule send_item_invariant [where P = ?P])
    show "?P (snd (attempt s env i st'))" if "?P st'" for st'
      using that assms(1) by (simp add: attempt_filter)
    show "?P (onRetry s env i e n st')" if "?P st'" for st' e n
      using that assms(1) by (simp add: onRetry_filter ignores_attempt_def)
  qed (simp_all add: assms(2))
qed

lemma sends_elsewhere:
  "i \<noteq> k \<Longrightarrow> filter (is_send_at k) (events (snd (send_item s env i st)))
                 = filter (is_send_at k) (events st)"
  by (rule send_item_filter) (simp_all add: ignores_attempt_def ignores_handler_def)

lemma failures_elsewhere:
  "i \<noteq> k \<Longrightarrow> filter (is_failure_at k) (events (snd (send_item s env i st)))
                 = filter (is_failure_at k) (events st)"
  by (rule send_item_filter) (simp_all add: ignores_attempt_def ignores_handler_def)

lemma progress_before:
  "i < k \<Longrightarrow> filter (is_progress_from k) (events (snd (send_item s env i st)))
                 = filter (is_progress_from k) (events st)"
  by (rule send_item_filter) (simp_all add: ignores_attempt_def ignores_handler_def)

lemma loop_after:
  assumes "k < i"
  shows "filter (is_send_at k) (events (send_loop s env i st)) = filter (is_send_at k) (events st)"
    and "filter (is_failure_at k) (events (send_loop s env i st)) = filter (is_failure_at k) (events st)"
proof -
  let ?P = "\<lambda>st' :: send_state. filter (is_send_at k) (events st') = filter (is_send_at k) (events st)
                \<and> filter (is_failure_at k) (events st') = filter (is_failure_at k) (events st)"
  have "?P (send_loop s env i st)"
  proof (rule send_loop_invariant [where P = ?P])
    fix j st'
    assume "i \<le> j" and "?P st'"
    then show "?P (snd (send_item s env j st'))"
      using assms by (simp add: sends_elsewhere failures_elsewhere)
  qed simp
  then show "filter (is_send_at k) (events (send_loop s env i st)) = filter (is_send_at k) (events st)"
    and "filter (is_failure_at k) (events (send_loop s env i st)) = filter (is_failure_at k) (events st)"
    by simp_all
qed


text \<open>
  In the states \<open>send\<close> reaches the array of envelopes has no holes, the loop index is inside
  it, and \<open>tx\<close> is an envelope.
\<close>

definition ready :: "nat \<Rightarrow> send_state \<Rightarrow> bool" where
  "ready i st \<longleftrightarrow> None \<notin> set (signedTXs st) \<and> i < length (signedTXs st) \<and> tx st \<noteq> None"

lemma attempt_signedTXs:
  "signedTXs (snd (attempt s env i st)) =
     (case submit env i (counted st) of
        Inl err \<Rightarrow> signedTXs st
      | Inr (txid, rs) \<Rightarrow>
          if slot st + 150 \<le> rs \<and> Suc i < length (signedTXs st)
          then fst (snd (signAndRebuildTransactionsFromInstructionSets s (signedTXs st) (Suc i)
                           (snd (slotAndBlockHashAfter env i (Suc (retryNumber st)))) 0))
          else signedTXs st)"
  by (auto simp: attempt_def counted_def Let_def split_def split: sum.splits)

lemma attempt_ready:
  assumes "ready i st"
  shows "ready i (snd (attempt s env i st))"
proof -
  have a: "None \<notin> set (signedTXs st)" and b: "i < length (signedTXs st)" and c: "tx st \<noteq> None"
    using assms by (simp_all add: ready_def)
  have "None \<notin> set (signedTXs (snd (attempt s env i st)))"
    using a no_holes_signAndRebuild [OF a, of "Suc i" s]
    by (auto simp: attempt_signedTXs split: sum.splits)
  moreover have "i < length (signedTXs (snd (attempt s env i st)))"
    using b length_signAndRebuild_mono [of "signedTXs st" s "Suc i"]
    by (auto simp: attempt_signedTXs less_le_trans split: sum.splits)
  ultimately show ?thesis using c by (simp add: ready_def attempt_tx)
qed

lemma onRetry_ready:
  assumes "ready i st"
  shows "ready i (onRetry s env i e n st)"
proof (cases "err_type_of e = Some timeout \<and> slot st + 150 \<le> polledSlot env i n")
  case False
  then show ?thesis using assms by (auto simp: onRetry_def ready_def Let_def)
next
  case True
  have a: "None \<notin> set (signedTXs st)" and b: "i < length (signedTXs st)" and c: "tx st \<noteq> None"
    using assms by (simp_all add: ready_def)
  let ?call = "signAndRebuildTransactionsFromInstructionSets s (signedTXs st) i
                 (snd (slotAndBlockHashOnRetry env i n)) n"
  have txs: "signedTXs (onRetry s env i e n st) = fst (snd ?call)"
    using True by (auto simp: onRetry_def Let_def split_def split: sum.splits)
  have nh: "None \<notin> set (fst (snd ?call))"
    using a b by (simp add: no_holes_signAndRebuild)
  have len: "i < length (fst (snd ?call))"
    using b length_signAndRebuild_mono [of "signedTXs st" s i] by (simp add: less_le_trans)
  have "tx (onRetry s env i e n st) \<noteq> None"
  proof (cases "snd (snd ?call)")
    case (Inl err)
    then have "tx (onRetry s env i e n st) = tx st"
      using True by (simp add: onRetry_def Let_def split_def)
    then show ?thesis using c by simp
  next
    case (Inr first)
    then have "tx (onRetry s env i e n st) = first"
      using True by (simp add: onRetry_def Let_def split_def)
    moreover have "first = fst (snd ?call) ! i"
      using signAndRebuild_returns [OF Inr] len by (simp add: Let_def)
    ultimately show ?thesis using nh len by (metis nth_mem)
  qed
  then show ?thesis using nh len by (simp add: ready_def txs)
qed

lemma send_item_sound:
  assumes "None \<notin> set (signedTXs st)" and "i < length (signedTXs st)"
  shows "None \<notin> set (signedTXs (snd (send_item s env i st)))"
proof -
  let ?st = "st\<lparr>tx := signedTXs st ! i, retryNumber := 0\<rparr>"
  have "signedTXs st ! i \<noteq> None"
    using assms by (metis nth_mem)
  then have "ready i ?st"
    using assms by (simp add: ready_def)
  then have "ready i (snd (retry s env i (maxSigningAttempts (configuration s)) 1 ?st))"
    by (rule retry_invariant) (simp_all add: attempt_ready onRetry_ready)
  then show ?thesis
    by (auto simp: send_item_def Let_def ready_def split: prod.splits option.splits)
qed


lemma submit_timeout:
  assumes "tx st = Some t"
    and "is_timeout (sendSignedTransaction t (submissionAt env i (retryNumber st)))"
  shows "\<exists>err. submit env i st = Inl (Classified err) \<and> etype err = timeout"
  using assms
  by (auto simp: submit_def split: sum.splits SendSignedTransactionResult.splits)

lemma retry_exhausts:
  assumes H: "\<And>n t. 1 \<le> n \<Longrightarrow> n \<le> maxSigningAttempts (configuration s) \<Longrightarrow>
                is_timeout (sendSignedTransaction t (submissionAt env k n))"
  shows "ready k st \<Longrightarrow> retryNumber st < maxSigningAttempts (configuration s) \<Longrightarrow>
         maxSigningAttempts (configuration s) \<le> Suc (r + retryNumber st) \<Longrightarrow>
           fst (retry s env k r num st) = Some (Raised (JsError ''MAX_RESIGN_ATTEMPTS_REACHED''))
         \<and> length (filter (is_send_at k) (events (snd (retry s env k r num st))))
             = length (filter (is_send_at k) (events st))
               + (maxSigningAttempts (configuration s) - retryNumber st)
         \<and> (\<forall>Q. ignores_handler Q \<and> (\<forall>t. \<not> Q (SendSigned k t)) \<longrightarrow>
                filter Q (events (snd (retry s env k r num st))) = filter Q (events st))"
proof (induction r arbitrary: num st)
  case 0
  let ?M = "maxSigningAttempts (configuration s)"
  let ?st2 = "st\<lparr>retryNumber := Suc (retryNumber st), events := events st @ [SendSigned k (tx st)]\<rparr>"
  obtain t where t: "tx st = Some t" using "0.prems"(1) by (auto simp: ready_def)
  have "is_timeout (sendSignedTransaction t (submissionAt env k (Suc (retryNumber st))))"
    using H [of "Suc (retryNumber st)" t] "0.prems"(2) by simp
  then obtain err where sub: "submit env k (counted st) = Inl (Classified err)"
    and ty: "etype err = timeout"
    using submit_timeout [of "counted st" t env k] t by (auto simp: counted_def)
  have last: "?M \<le> Suc (retryNumber st)" using "0.prems"(3) by simp
  have att: "attempt s env k st = (Bailed (Raised (JsError ''MAX_RESIGN_ATTEMPTS_REACHED'')), ?st2)"
    using sub ty last attempt_failed_outcome [of env k st "Classified err" s]
      attempt_failed_state [of env k st "Classified err" s]
    by (simp add: prod_eq_iff)
  have one: "?M - retryNumber st = 1" using last "0.prems"(2) by simp
  show ?case using att one by simp
next
  case (Suc r)
  let ?M = "maxSigningAttempts (configuration s)"
  let ?st2 = "st\<lparr>retryNumber := Suc (retryNumber st), events := events st @ [SendSigned k (tx st)]\<rparr>"
  obtain t where t: "tx st = Some t" using Suc.prems(1) by (auto simp: ready_def)
  have "is_timeout (sendSignedTransaction t (submissionAt env k (Suc (retryNumber st))))"
    using H [of "Suc (retryNumber st)" t] Suc.prems(2) by simp
  then obtain err where sub: "submit env k (counted st) = Inl (Classified err)"
    and ty: "etype err = timeout"
    using submit_timeout [of "counted st" t env k] t by (auto simp: counted_def)
  have st2: "snd (attempt s env k st) = ?st2"
    using sub by (rule attempt_failed_state)
  show ?case
  proof (cases "?M \<le> Suc (retryNumber st)")
    case True
    have att: "attempt s env k st = (Bailed (Raised (JsError ''MAX_RESIGN_ATTEMPTS_REACHED'')), ?st2)"
      using sub ty True attempt_failed_outcome [of env k st "Classified err" s] st2 by (simp add: prod_eq_iff)
    have one: "?M - retryNumber st = 1" using True Suc.prems(2) by simp
    show ?thesis using att one by simp
  next
    case False
    have att: "attempt s env k st = (Threw (Classified err), ?st2)"
      using sub ty False attempt_failed_outcome [of env k st "Classified err" s] st2 by (simp add: prod_eq_iff)
    let ?st3 = "onRetry s env k (Classified err) num ?st2"
    have step: "retry s env k (Suc r) num st = retry s env k r (num + 1) ?st3"
      using att by simp
    have "ready k ?st2" using attempt_ready [OF Suc.prems(1), of s env] st2 by simp
    then have r3: "ready k ?st3" by (rule onRetry_ready)
    have n3: "retryNumber ?st3 = Suc (retryNumber st)" by (simp add: onRetry_retryNumber)
    have lt3: "retryNumber ?st3 < ?M" using False n3 by simp
    have le3: "?M \<le> Suc (r + retryNumber ?st3)" using Suc.prems(3) n3 by simp
    note ih = Suc.IH [OF r3 lt3 le3, of "num + 1"]
    have ev3: "filter Q (events ?st3) = filter Q (events ?st2)" if "ignores_handler Q" for Q
      using that by (rule onRetry_filter)
    have sends3: "filter (is_send_at k) (events ?st3)
                    = filter (is_send_at k) (events st) @ [SendSigned k (tx st)]"
      using ev3 [of "is_send_at k"] by (simp add: ignores_handler_def)
    have count: "length (filter (is_send_at k) (events ?st3)) + (?M - retryNumber ?st3)
                   = length (filter (is_send_at k) (events st)) + (?M - retryNumber st)"
      using sends3 n3 False by simp
    have others: "filter Q (events ?st3) = filter Q (events st)"
      if "ignores_handler Q" and "\<forall>t. \<not> Q (SendSigned k t)" for Q
      using ev3 [OF that(1)] that(2) by simp
    show ?thesis
      unfolding step using ih count others by auto
  qed
qed


lemma send_item_exhausts:
  assumes H: "\<And>n t. 1 \<le> n \<Longrightarrow> n \<le> maxSigningAttempts (configuration s) \<Longrightarrow>
                is_timeout (sendSignedTransaction t (submissionAt env k n))"
    and pos: "0 < maxSigningAttempts (configuration s)"
    and sound: "None \<notin> set (signedTXs st)" and k: "k < length (signedTXs st)"
  shows "\<exists>st' n iset.
           send_item s env k st = (abortOnFailure (configuration s), st')
         \<and> length (filter (is_send_at k) (events st'))
             = length (filter (is_send_at k) (events st)) + maxSigningAttempts (configuration s)
         \<and> filter (is_failure_at k) (events st')
             = filter (is_failure_at k) (events st)
               @ [OnFailure (Raised (JsError ''MAX_RESIGN_ATTEMPTS_REACHED'')) k n iset]
         \<and> (\<forall>j. filter (is_progress_from j) (events st') = filter (is_progress_from j) (events st))"
proof -
  let ?M = "maxSigningAttempts (configuration s)"
  let ?st = "st\<lparr>tx := signedTXs st ! k, retryNumber := 0\<rparr>"
  have "signedTXs st ! k \<noteq> None" using sound k by (metis nth_mem)
  then have rdy: "ready k ?st" using sound k by (simp add: ready_def)
  have "retryNumber ?st < ?M" and "?M \<le> Suc (?M + retryNumber ?st)"
    using pos by simp_all
  note ex = retry_exhausts [of s env k, OF H rdy this, of 1]
  obtain res st1 where r: "retry s env k ?M 1 ?st = (res, st1)"
    by (cases "retry s env k ?M 1 ?st")
  have res: "res = Some (Raised (JsError ''MAX_RESIGN_ATTEMPTS_REACHED''))"
    using ex r by simp
  have sends: "length (filter (is_send_at k) (events st1))
                 = length (filter (is_send_at k) (events st)) + ?M"
    using ex r by simp
  have fails: "filter (is_failure_at k) (events st1) = filter (is_failure_at k) (events st)"
    using ex r by (simp add: ignores_handler_def)
  have progress: "filter (is_progress_from j) (events st1) = filter (is_progress_from j) (events st)"
    for j
    using ex r by (simp add: ignores_handler_def)
  let ?st' = "st1\<lparr>events := events st1 @
                 [OnFailure (Raised (JsError ''MAX_RESIGN_ATTEMPTS_REACHED'')) k (successfulItems st1)
                    (js_get (instructionSets s) (int (successfulItems st1) - 1))]\<rparr>"
  have item: "send_item s env k st = (abortOnFailure (configuration s), ?st')"
    using r res by (simp add: send_item_def Let_def)
  show ?thesis
    using item sends fails progress by (intro exI [of _ ?st'] exI conjI) simp_all
qed


definition exhausted :: "SmartInstructionSender \<Rightarrow> nat \<Rightarrow> event list \<Rightarrow> bool" where
  "exhausted s k evs \<longleftrightarrow>
     length (filter (is_send_at k) evs) = maxSigningAttempts (configuration s)
     \<and> (\<exists>n iset. filter (is_failure_at k) evs
                      = [OnFailure (Raised (JsError ''MAX_RESIGN_ATTEMPTS_REACHED'')) k n iset])"

definition untouched :: "nat \<Rightarrow> event list \<Rightarrow> bool" where
  "untouched k evs \<longleftrightarrow> filter (is_send_at k) evs = [] \<and> filter (is_failure_at k) evs = []"

lemma loop_exhausts:
  assumes H: "\<And>n t. 1 \<le> n \<Longrightarrow> n \<le> maxSigningAttempts (configuration s) \<Longrightarrow>
                is_timeout (sendSignedTransaction t (submissionAt env k n))"
    and pos: "0 < maxSigningAttempts (configuration s)"
  shows "i \<le> k \<Longrightarrow> None \<notin> set (signedTXs st) \<Longrightarrow> untouched k (events st) \<Longrightarrow>
         filter (is_progress_from k) (events st) = [] \<Longrightarrow>
           (untouched k (events (send_loop s env i st)) \<or> exhausted s k (events (send_loop s env i st)))
         \<and> (abortOnFailure (configuration s) \<longrightarrow>
                filter (is_progress_from k) (events (send_loop s env i st)) = [])"
  using H pos
proof (induction s env i st rule: send_loop.induct)
  case (1 s env i st)
  note sound = "1.prems"(2) and clean = "1.prems"(3) and quiet = "1.prems"(4)
  show ?case
  proof (cases "i < length (signedTXs st)")
    case False
    then have "send_loop s env i st = st" by (subst send_loop.simps) simp
    then show ?thesis using clean quiet by simp
  next
    case True
    obtain b st' where it: "send_item s env i st = (b, st')"
      by (cases "send_item s env i st")
    have unfold: "send_loop s env i st = (if b then st' else send_loop s env (i + 1) st')"
      using True it by (subst send_loop.simps) simp
    have sound': "None \<notin> set (signedTXs st')"
      using send_item_sound [OF sound True, of s env] it by simp
    show ?thesis
    proof (cases "i = k")
      case ik: True
      obtain st'' n iset where
          item: "send_item s env k st = (abortOnFailure (configuration s), st'')"
        and sends: "length (filter (is_send_at k) (events st''))
             = length (filter (is_send_at k) (events st)) + maxSigningAttempts (configuration s)"
        and fails: "filter (is_failure_at k) (events st'')
             = filter (is_failure_at k) (events st)
               @ [OnFailure (Raised (JsError ''MAX_RESIGN_ATTEMPTS_REACHED'')) k n iset]"
        and progress: "\<forall>j. filter (is_progress_from j) (events st'')
                          = filter (is_progress_from j) (events st)"
        using send_item_exhausts [of s env k st, OF "1.prems"(5) "1.prems"(6) sound] True ik
        by blast
      have b: "b = abortOnFailure (configuration s)" and st': "st' = st''"
        using it item ik by simp_all
      have ex: "exhausted s k (events st')"
        using sends fails clean by (auto simp: exhausted_def untouched_def st')
      have pr: "filter (is_progress_from k) (events st') = []"
        using progress quiet by (simp add: st')
      show ?thesis
      proof (cases b)
        case True
        then show ?thesis using unfold ex pr by simp
      next
        case False
        have "exhausted s k (events (send_loop s env (i + 1) st'))"
          using ex loop_after [of k "i + 1" s env st'] ik by (simp add: exhausted_def)
        then show ?thesis using unfold False b by simp
      qed
    next
      case ik: False
      then have lt: "i < k" using "1.prems"(1) by simp
      have clean': "untouched k (events st')"
        using clean sends_elsewhere [OF ik, of s env st] failures_elsewhere [OF ik, of s env st] it
        by (simp add: untouched_def)
      have quiet': "filter (is_progress_from k) (events st') = []"
        using quiet progress_before [OF lt, of s env st] it by simp
      show ?thesis
      proof (cases b)
        case True
        then show ?thesis using unfold clean' quiet' by simp
      next
        case False
        then have bf: "b = False" by simp
        have "i + 1 \<le> k" using lt by simp
        note ih = "1.IH" [OF True it [symmetric] bf this sound' clean' quiet'
                          "1.prems"(5) "1.prems"(6)]
        show ?thesis using unfold False ih by simp
      qed
    qed
  qed
qed

lemma build_all_filtered:
  "\<forall>iset \<in> set isets. instructions iset \<noteq> [] \<Longrightarrow> \<exists>ts. build_all payer bh isets = Inr ts"
proof (induction isets)
  case Nil
  then show ?case by simp
next
  case (Cons iset isets)
  then obtain ts where "build_all payer bh isets = Inr ts" by auto
  moreover have "\<exists>t. newTransaction payer bh iset = Inr t"
    using Cons.prems by (simp add: newTransaction_def Let_def)
  ultimately show ?case by auto
qed

lemma send_builds:
  "\<exists>ts. build_all payer bh (filter (\<lambda>i. instructions i \<noteq> []) isets) = Inr ts"
  by (rule build_all_filtered) simp

lemma send_resolved:
  assumes "send s env = Inr st"
  shows "\<exists>st0. st = send_loop s env 0 st0 \<and> None \<notin> set (signedTXs st0)
           \<and> (\<exists>x. events st0 = [GetSlotAndCurrentBlockHash, SignAllTransactions x])"
proof -
  obtain slot0 bh0 where first: "firstSlotAndBlockHash env = Inr (slot0, bh0)"
    using assms by (auto simp: send_def Let_def split: if_splits sum.splits option.splits)
  obtain unsigned where built: "build_all (publicKey (wallet s)) bh0
        (filter (\<lambda>i. instructions i \<noteq> []) (instructionSets s)) = Inr unsigned"
    using send_builds by blast
  let ?st0 = "\<lparr>slot = slot0, currentBlock = bh0,
               signedTXs = map (\<lambda>t. Some (walletSign t)) unsigned,
               successfulItems = 0, tx = None, retryNumber = 0,
               events = [GetSlotAndCurrentBlockHash, SignAllTransactions (map Some unsigned)]\<rparr>"
  have "st = send_loop s env 0 ?st0"
    using assms first built
    by (simp add: send_def Let_def split: if_splits option.splits)
  moreover have "None \<notin> set (signedTXs ?st0)" by auto
  moreover have "\<exists>x. events ?st0 = [GetSlotAndCurrentBlockHash, SignAllTransactions x]" by simp
  ultimately show ?thesis by blast
qed

lemma send_rejected:
  assumes "send s env = Inl (e, evs)"
  shows "evs = [] \<or> evs = [GetSlotAndCurrentBlockHash]
           \<or> (\<exists>x. evs = [GetSlotAndCurrentBlockHash, SignAllTransactions x])"
  using assms
  by (auto simp: send_def Let_def split: if_splits sum.splits option.splits)

section \<open>Kinds of events\<close>

fun is_send :: "event \<Rightarrow> bool" where
  "is_send (SendSigned i t) = True"
| "is_send e = False"

fun is_progress :: "event \<Rightarrow> bool" where
  "is_progress (OnProgress i t) = True"
| "is_progress e = False"

fun is_failure :: "event \<Rightarrow> bool" where
  "is_failure (OnFailure e i n iset) = True"
| "is_failure e = False"

text \<open>The number of envelopes \<open>send\<close> builds and signs at the start.\<close>

definition envelopes :: "SmartInstructionSender \<Rightarrow> nat" where
  "envelopes s = length (filter (\<lambda>i. instructions i \<noteq> []) (instructionSets s))"

section \<open>Answers of the ledger used in the examples\<close>

definition timesOut :: submission where
  "timesOut =
     \<lparr>serialize = None, sendRawTransaction = Inr ''sig'',
      confirmTransaction = Inl (JsError ''Transaction was not confirmed in 30.00 seconds''),
      getConfirmedTransaction = Inr None\<rparr>"

definition confirmsAt :: "txid \<Rightarrow> slot \<Rightarrow> submission" where
  "confirmsAt sig sl =
     \<lparr>serialize = None, sendRawTransaction = Inr sig, confirmTransaction = Inr None,
      getConfirmedTransaction = Inr (Some sl)\<rparr>"


definition item0 :: InstructionSet where
  "item0 = \<lparr>signers = [], instructions = [10]\<rparr>"

definition item1 :: InstructionSet where
  "item1 = \<lparr>signers = [7], instructions = [11]\<rparr>"

definition item2 :: InstructionSet where
  "item2 = \<lparr>signers = [], instructions = [12, 13]\<rparr>"

definition emptyItem :: InstructionSet where
  "emptyItem = \<lparr>signers = [], instructions = []\<rparr>"

definition connected :: WalletSigner where
  "connected = \<lparr>publicKey = Some 1, signsInPlace = True\<rparr>"

text \<open>A ledger that stays at slot 1000 and answers every submission with \<open>f\<close>.\<close>

definition quiet :: "(nat \<Rightarrow> nat \<Rightarrow> submission) \<Rightarrow> Environment" where
  "quiet f =
     \<lparr>firstSlotAndBlockHash = Inr (1000, ''hash0''), firstSignature = None,
      submissionAt = f,
      slotAndBlockHashAfter = (\<lambda>i n. (1000, ''hash0'')),
      polledSlot = (\<lambda>i n. 1000),
      slotAndBlockHashOnRetry = (\<lambda>i n. (1000, ''hash0''))\<rparr>"

definition sender_three_attempts :: SmartInstructionSender where
  "sender_three_attempts =
     \<lparr>wallet = connected, instructionSets = [item0, item1],
      configuration = \<lparr>maxSigningAttempts = 3, abortOnFailure = True,
                       commitment = ''confirmed''\<rparr>\<rparr>"

text \<open>
  The transaction for an instruction set and a block hash, paid by the wallet \<open>connected\<close>
  and signed by the signers of the set: as it is handed to the wallet, and as the wallet
  hands it back.
\<close>

definition draft :: "blockhash \<Rightarrow> InstructionSet \<Rightarrow> Transaction" where
  "draft bh iset =
     \<lparr>feePayer = Some 1, recentBlockhash = bh, txInstructions = instructions iset,
      partialSignatures = signers iset, walletSigned = False\<rparr>"

definition signed :: "blockhash \<Rightarrow> InstructionSet \<Rightarrow> Transaction" where
  "signed bh iset =
     \<lparr>feePayer = Some 1, recentBlockhash = bh, txInstructions = instructions iset,
      partialSignatures = signers iset, walletSigned = True\<rparr>"

definition envelope :: "blockhash \<Rightarrow> InstructionSet \<Rightarrow> Transaction option" where
  "envelope bh iset = Some (signed bh iset)"

definition start :: send_state where
  "start =
     \<lparr>slot = 1000, currentBlock = ''hash0'',
      signedTXs = [envelope ''hash0'' item0, envelope ''hash0'' item1],
      successfulItems = 0, tx = envelope ''hash0'' item0, retryNumber = 0,
      events = []\<rparr>"

definition env_slow :: Environment where
  "env_slow =
     \<lparr>firstSlotAndBlockHash = Inr (1000, ''hash0''), firstSignature = None,
      submissionAt = (\<lambda>i n. if i = 0 \<and> n = 1 then timesOut else confirmsAt ''sig1'' 1149),
      slotAndBlockHashAfter = (\<lambda>i n. (1150, ''hash1'')),
      polledSlot = (\<lambda>i n. 1150),
      slotAndBlockHashOnRetry = (\<lambda>i n. (1150, ''hash1''))\<rparr>"



definition confirmsUnseen :: submission where
  "confirmsUnseen =
     \<lparr>serialize = None, sendRawTransaction = Inr ''sig'', confirmTransaction = Inr None,
      getConfirmedTransaction = Inr None\<rparr>"

definition env_unseen :: Environment where
  "env_unseen = quiet (\<lambda>i n. confirmsUnseen)"

definition sender_one_attempt :: SmartInstructionSender where
  "sender_one_attempt =
     \<lparr>wallet = connected, instructionSets = [item0, item1],
      configuration = \<lparr>maxSigningAttempts = 1, abortOnFailure = True,
                       commitment = ''confirmed''\<rparr>\<rparr>"

definition sender_going_on :: SmartInstructionSender where
  "sender_going_on =
     \<lparr>wallet = connected, instructionSets = [item0, item1],
      configuration = \<lparr>maxSigningAttempts = 1, abortOnFailure = False,
                       commitment = ''confirmed''\<rparr>\<rparr>"

definition env_item0_times_out :: Environment where
  "env_item0_times_out = quiet (\<lambda>i n. if i = 0 then timesOut else confirmsAt ''sig1'' 1001)"

definition env_all_time_out :: Environment where
  "env_all_time_out = quiet (\<lambda>i n. timesOut)"

definition env_steady :: Environment where
  "env_steady = quiet (\<lambda>i n. confirmsAt ''sig1'' 1001)"





definition sender_of_three :: SmartInstructionSender where
  "sender_of_three = sender_three_attempts\<lparr>instructionSets := [item0, item1, item2]\<rparr>"

definition env_item1_times_out :: Environment where
  "env_item1_times_out = quiet (\<lambda>i n. if i = 1 then timesOut else confirmsAt ''sig0'' 1001)"

definition sender_with_empty_set :: SmartInstructionSender where
  "sender_with_empty_set = sender_three_attempts\<lparr>instructionSets := [emptyItem, item0, item1]\<rparr>"

definition env_late :: Environment where
  "env_late =
     \<lparr>firstSlotAndBlockHash = Inr (1000, ''hash0''), firstSignature = None,
      submissionAt = (\<lambda>i n. if i = 0 then confirmsAt ''sig0'' 1150 else confirmsAt ''sig1'' 1151),
      slotAndBlockHashAfter = (\<lambda>i n. (1150, ''hash1'')),
      polledSlot = (\<lambda>i n. 1150),
      slotAndBlockHashOnRetry = (\<lambda>i n. (1150, ''hash1''))\<rparr>"

text \<open>
  A ledger on which the first submission of index 1 times out and every other submission
  is confirmed at slot 1149; after the timeout the poll sees slot 1150.
\<close>

definition env_item1_slow :: Environment where
  "env_item1_slow =
     \<lparr>firstSlotAndBlockHash = Inr (1000, ''hash0''), firstSignature = None,
      submissionAt = (\<lambda>i n. if i = 1 \<and> n = 1 then timesOut else confirmsAt ''sig1'' 1149),
      slotAndBlockHashAfter = (\<lambda>i n. (1150, ''hash1'')),
      polledSlot = (\<lambda>i n. 1150),
      slotAndBlockHashOnRetry = (\<lambda>i n. (1150, ''hash1''))\<rparr>"

text \<open>The envelopes \<open>send\<close> signs at the start for the batch of \<open>sender_with_empty_set\<close>.\<close>

definition two_envelopes :: "Transaction option list" where
  "two_envelopes = [envelope ''hash0'' item0, envelope ''hash0'' item1]"


section \<open>The arguments of the failure callback\<close>

text \<open>
  C1. In the scenario of the claim (\<open>maxSigningAttempts = 1\<close>, \<open>abortOnFailure = true\<close>, item 0
  times out) the failure callback is called once, with the error, 0, 0 and
  \<open>this.instructionSets[successfulItems - 1]\<close>, which is \<open>instructionSets[-1]\<close>, that is
  \<open>undefined\<close>, not item 0. With \<open>abortOnFailure = false\<close> and both items timing out, the
  call for item 1 has 1 as second argument and 0 as third: the call passes the loop index
  second and the success count third, and as fourth argument the instruction set before
  the success count, where the declared type of the callback (\<open>FailureCb\<close>) has the success
  count second, the index of the failed set third and the failed set itself fourth.
\<close>

theorem C1_failure_callback_arguments:
  "trace (send sender_one_attempt env_item0_times_out) =
     [GetSlotAndCurrentBlockHash,
      SignAllTransactions [Some (draft ''hash0'' item0), Some (draft ''hash0'' item1)],
      SendSigned 0 (Some (signed ''hash0'' item0)),
      OnFailure (Raised (JsError ''MAX_RESIGN_ATTEMPTS_REACHED'')) 0 0 None]
   \<and> trace (send sender_going_on env_all_time_out) =
     [GetSlotAndCurrentBlockHash,
      SignAllTransactions [Some (draft ''hash0'' item0), Some (draft ''hash0'' item1)],
      SendSigned 0 (Some (signed ''hash0'' item0)),
      OnFailure (Raised (JsError ''MAX_RESIGN_ATTEMPTS_REACHED'')) 0 0 None,
      SendSigned 1 (Some (signed ''hash0'' item1)),
      OnFailure (Raised (JsError ''MAX_RESIGN_ATTEMPTS_REACHED'')) 1 0 None]"
  by code_simp


section \<open>One envelope for each instruction set\<close>

text \<open>
  C2. A batch of three instruction sets whose first has no instructions: \<open>send\<close> filters it
  out and signs two envelopes, for the second and the third set. The first confirmation is
  at slot 1150, the baseline 1000 plus 150, so the envelopes after index 0 are rebuilt. The
  rebuild reads \<open>this.instructionSets[j]\<close>, the list before the filter, for \<open>j\<close> from 1 up to
  its length 3: the envelope at index 1 is built again from the second set, which index 0
  has just submitted, and the array grows to three envelopes for two sets with
  instructions. The second set is submitted and confirmed twice.
\<close>

theorem C2_envelopes_after_rebuild:
  "trace (send sender_with_empty_set env_late) =
     [GetSlotAndCurrentBlockHash,
      SignAllTransactions [Some (draft ''hash0'' item0), Some (draft ''hash0'' item1)],
      SendSigned 0 (envelope ''hash0'' item0), OnProgress 0 ''sig0'',
      GetSlotAndCurrentBlockHash, OnReSign 0 1,
      SignAllTransactions [Some (draft ''hash1'' item0), Some (draft ''hash1'' item1)],
      SendSigned 1 (envelope ''hash1'' item0), OnProgress 1 ''sig1'',
      SendSigned 2 (envelope ''hash1'' item1), OnProgress 2 ''sig1'']
   \<and> map_sum fst signedTXs (send sender_with_empty_set env_late) =
       Inr [envelope ''hash0'' item0, envelope ''hash1'' item0, envelope ''hash1'' item1]"
  by code_simp


section \<open>Expiry of the validity window\<close>

text \<open>
  C3, as amended. After a confirmed submission at index \<open>i\<close> the attempt fetches a fresh slot
  and block hash, calls the re-sign callback with 0 and \<open>i + 1\<close> and rebuilds, if and only
  if \<open>isExpired\<close> holds of the confirmed slot and the baseline and an envelope remains after
  \<open>i\<close>; otherwise it ends after the progress callback. The rebuilt envelopes go to the
  wallet unless building one of them fails. And in every run in which no confirmed slot
  and no slot polled after a timeout reaches the first baseline plus 150, the re-sign
  callback is never called.
\<close>

theorem C3_expiry:
  "(submit env i (counted st) = Inr (txid, confirmedSlot) \<longrightarrow>
      events (snd (attempt s env i st)) =
        events st @ [SendSigned i (tx st), OnProgress i txid] @
          (if isExpired confirmedSlot (slot st) \<and> Suc i < length (signedTXs st)
           then GetSlotAndCurrentBlockHash # OnReSign 0 (Suc i) #
                  (case fst (rebuild_loop s
                               (snd (slotAndBlockHashAfter env i (Suc (retryNumber st)))) (Suc i)
                               (signedTXs st)) of
                     Some e \<Rightarrow> []
                   | None \<Rightarrow>
                       [SignAllTransactions
                          (drop (Suc i)
                             (snd (rebuild_loop s
                               (snd (slotAndBlockHashAfter env i (Suc (retryNumber st)))) (Suc i)
                                     (signedTXs st))))])
           else []))
   \<and> (firstSlotAndBlockHash env = Inr (slot0, bh0)
        \<and> (\<forall>i n t txid cs.
              sendSignedTransaction t (submissionAt env i n) = Inr (Sent txid cs) \<longrightarrow>
                \<not> isExpired cs slot0)
        \<and> (\<forall>i n. \<not> isExpired (polledSlot env i n) slot0) \<longrightarrow>
      filter is_resign (trace (send s env)) = [])"
proof (intro conjI impI)
  assume "submit env i (counted st) = Inr (txid, confirmedSlot)"
  then show "events (snd (attempt s env i st)) =
        events st @ [SendSigned i (tx st), OnProgress i txid] @
          (if isExpired confirmedSlot (slot st) \<and> Suc i < length (signedTXs st)
           then GetSlotAndCurrentBlockHash # OnReSign 0 (Suc i) #
                  (case fst (rebuild_loop s
                               (snd (slotAndBlockHashAfter env i (Suc (retryNumber st)))) (Suc i)
                               (signedTXs st)) of
                     Some e \<Rightarrow> []
                   | None \<Rightarrow>
                       [SignAllTransactions
                          (drop (Suc i)
                             (snd (rebuild_loop s
                               (snd (slotAndBlockHashAfter env i (Suc (retryNumber st)))) (Suc i)
                                     (signedTXs st))))])
           else [])"
    by (rule confirmed_events)
next
  assume h: "firstSlotAndBlockHash env = Inr (slot0, bh0)
        \<and> (\<forall>i n t txid cs.
              sendSignedTransaction t (submissionAt env i n) = Inr (Sent txid cs) \<longrightarrow>
                \<not> isExpired cs slot0)
        \<and> (\<forall>i n. \<not> isExpired (polledSlot env i n) slot0)"
  then have confirmed: "\<And>i n t txid cs.
        sendSignedTransaction t (submissionAt env i n) = Inr (Sent txid cs) \<Longrightarrow> \<not> isExpired cs slot0"
    and polled: "\<And>i n. \<not> isExpired (polledSlot env i n) slot0"
    by blast+
  note loop = no_resign_in_loop [of env slot0, OF confirmed polled]
  show "filter is_resign (trace (send s env)) = []"
    using h by (auto simp: send_def trace_def Let_def loop split: option.splits sum.splits)
qed


theorem C3_witness:
  "submit env_steady 0 (counted start) = Inr (''sig1'', 1001)
   \<and> events (snd (attempt sender_three_attempts env_steady 0 start))
       = [SendSigned 0 (envelope ''hash0'' item0), OnProgress 0 ''sig1'']
   \<and> firstSlotAndBlockHash env_steady = Inr (1000, ''hash0'')
   \<and> filter is_resign (trace (send sender_three_attempts env_steady)) = []"
proof -
  have h1: "submit env_steady 0 (counted start) = Inr (''sig1'', 1001)" by code_simp
  have h2: "firstSlotAndBlockHash env_steady = Inr (1000, ''hash0'')" by code_simp
  have h3: "\<forall>i n t txid cs.
              sendSignedTransaction t (submissionAt env_steady i n) = Inr (Sent txid cs) \<longrightarrow>
                \<not> isExpired cs 1000"
    by (simp add: env_steady_def quiet_def confirmsAt_def sendSignedTransaction_def
          sendAndConfirmRawTransactionEx_def isExpired_def)
  have h4: "\<forall>i n. \<not> isExpired (polledSlot env_steady i n) 1000"
    by (simp add: env_steady_def quiet_def isExpired_def)
  note c3 = C3_expiry [of env_steady 0 start "''sig1''" 1001 sender_three_attempts 1000 "''hash0''"]
  note a = c3 [THEN conjunct1, THEN mp, OF h1]
  note b = c3 [THEN conjunct2, THEN mp, OF conjI [OF h2 conjI [OF h3 h4]]]
  have c: "events start @ [SendSigned 0 (tx start), OnProgress 0 ''sig1''] @
          (if isExpired 1001 (slot start) \<and> Suc 0 < length (signedTXs start)
           then GetSlotAndCurrentBlockHash # OnReSign 0 (Suc 0) #
                  (case fst (rebuild_loop sender_three_attempts
                               (snd (slotAndBlockHashAfter env_steady 0 (Suc (retryNumber start)))) (Suc 0)
                               (signedTXs start)) of
                     Some e \<Rightarrow> []
                   | None \<Rightarrow>
                       [SignAllTransactions
                          (drop (Suc 0)
                             (snd (rebuild_loop sender_three_attempts
                                     (snd (slotAndBlockHashAfter env_steady 0 (Suc (retryNumber start)))) (Suc 0)
                                     (signedTXs start))))])
           else [])
        = [SendSigned 0 (envelope ''hash0'' item0), OnProgress 0 ''sig1'']"
    by code_simp
  show ?thesis using h1 h2 a [unfolded c] b by blast
qed


text \<open>
  The claim as stated speaks of the confirmed slots only. In this run the first submission
  of item 0 times out, the poll sees slot 1150, which is the baseline 1000 plus 150, and
  the handler rebuilds and calls the re-sign callback with attempt 1 and index 0; both
  confirmations are at slot 1149, below the first baseline plus 150 and below the new one.
\<close>

theorem C3_counterexample:
  "firstSlotAndBlockHash env_slow = Inr (1000, ''hash0'')
   \<and> submissionAt env_slow 0 1 = timesOut
   \<and> polledSlot env_slow 0 1 = 1150
   \<and> submissionAt env_slow 0 2 = confirmsAt ''sig1'' 1149
   \<and> submissionAt env_slow 1 1 = confirmsAt ''sig1'' 1149
   \<and> \<not> isExpired 1149 1000
   \<and> \<not> isExpired 1149 1150
   \<and> trace (send sender_three_attempts env_slow) =
       [GetSlotAndCurrentBlockHash,
        SignAllTransactions [Some (draft ''hash0'' item0), Some (draft ''hash0'' item1)],
        SendSigned 0 (envelope ''hash0'' item0),
        GetSlot, GetSlotAndCurrentBlockHash, OnReSign 1 0,
        SignAllTransactions [Some (draft ''hash1'' item0), Some (draft ''hash1'' item1)],
        SendSigned 0 (envelope ''hash1'' item0), OnProgress 0 ''sig1'',
        SendSigned 1 (envelope ''hash1'' item1), OnProgress 1 ''sig1'']
   \<and> filter is_resign (trace (send sender_three_attempts env_slow)) = [OnReSign 1 0]"
  by code_simp


section \<open>What \<open>send\<close> raises\<close>







section \<open>Timeouts up to the limit\<close>

text \<open>
  C4. Let \<open>maxSigningAttempts\<close> be at least 1 and let every submission of index \<open>k\<close> up to
  that number of attempts time out, whatever the polled slots are. Then in every run of
  \<open>send\<close> index \<open>k\<close> is submitted at most \<open>maxSigningAttempts\<close> times; when it is never
  submitted (the loop stopped before, or there is no such envelope) the failure callback is
  not called for it; when it is submitted, it is submitted exactly \<open>maxSigningAttempts\<close>
  times and the failure callback is called exactly once for loop index \<open>k\<close>, with the error
  \<open>MAX_RESIGN_ATTEMPTS_REACHED\<close>; and with \<open>abortOnFailure\<close> the progress callback is called
  neither for \<open>k\<close> nor for any greater index. The loop index is the second argument of
  the call of the failure callback.
\<close>

theorem C4_timeouts_exhaust_attempts:
  assumes "0 < maxSigningAttempts (configuration s)"
    and "\<And>n t. 1 \<le> n \<Longrightarrow> n \<le> maxSigningAttempts (configuration s) \<Longrightarrow>
            is_timeout (sendSignedTransaction t (submissionAt env k n))"
  shows "length (filter (is_send_at k) (trace (send s env))) \<le> maxSigningAttempts (configuration s)
       \<and> (filter (is_send_at k) (trace (send s env)) = [] \<longrightarrow>
            filter (is_failure_at k) (trace (send s env)) = [])
       \<and> (filter (is_send_at k) (trace (send s env)) \<noteq> [] \<longrightarrow>
            length (filter (is_send_at k) (trace (send s env))) = maxSigningAttempts (configuration s)
            \<and> (\<exists>n iset. filter (is_failure_at k) (trace (send s env))
                  = [OnFailure (Raised (JsError ''MAX_RESIGN_ATTEMPTS_REACHED'')) k n iset]))
       \<and> (abortOnFailure (configuration s) \<longrightarrow>
            filter (is_progress_from k) (trace (send s env)) = [])"
proof -
  let ?tr = "trace (send s env)"
  have main: "(untouched k ?tr \<or> exhausted s k ?tr)
       \<and> (abortOnFailure (configuration s) \<longrightarrow> filter (is_progress_from k) ?tr = [])"
  proof (cases "send s env")
    case (Inl a)
    obtain e evs where a: "a = (e, evs)" by (cases a)
    have "?tr = evs" using Inl a by (simp add: trace_def)
    then show ?thesis using send_rejected [of s env e evs] Inl a by (auto simp: untouched_def)
  next
    case (Inr st)
    then obtain st0 where run: "st = send_loop s env 0 st0"
      and sound: "None \<notin> set (signedTXs st0)"
      and evs: "\<exists>x. events st0 = [GetSlotAndCurrentBlockHash, SignAllTransactions x]"
      using send_resolved [of s env st] by blast
    have "untouched k (events st0)" and "filter (is_progress_from k) (events st0) = []"
      using evs by (auto simp: untouched_def)
    from loop_exhausts [of s env k 0 st0, OF assms(2) assms(1) le0 sound this]
    show ?thesis using Inr run by (simp add: trace_def)
  qed
  show ?thesis
    using main assms(1) by (auto simp: untouched_def exhausted_def)
qed


theorem C4_witness:
  "0 < maxSigningAttempts (configuration sender_of_three)
   \<and> is_timeout (sendSignedTransaction (signed ''hash0'' item1)
                    (submissionAt env_item1_times_out 1 3))
   \<and> filter (is_send_at 1) (trace (send sender_of_three env_item1_times_out)) \<noteq> []
   \<and> abortOnFailure (configuration sender_of_three)
   \<and> length (filter (is_send_at 1) (trace (send sender_of_three env_item1_times_out)))
       = maxSigningAttempts (configuration sender_of_three)
   \<and> (\<exists>n iset. filter (is_failure_at 1) (trace (send sender_of_three env_item1_times_out))
          = [OnFailure (Raised (JsError ''MAX_RESIGN_ATTEMPTS_REACHED'')) 1 n iset])
   \<and> filter (is_progress_from 1) (trace (send sender_of_three env_item1_times_out)) = []"
proof -
  have h1: "0 < maxSigningAttempts (configuration sender_of_three)" by code_simp
  have h2: "is_timeout (sendSignedTransaction t (submissionAt env_item1_times_out 1 n))" for n t
    by (simp add: env_item1_times_out_def quiet_def timesOut_def sendSignedTransaction_def
          sendAndConfirmRawTransactionEx_def caught_def)
  have h3: "filter (is_send_at 1) (trace (send sender_of_three env_item1_times_out)) \<noteq> []"
    by code_simp
  have h4: "abortOnFailure (configuration sender_of_three)" by code_simp
  note c4 = C4_timeouts_exhaust_attempts [of sender_of_three env_item1_times_out 1, OF h1 h2]
  note a = c4 [THEN conjunct2, THEN conjunct2, THEN conjunct1, THEN mp, OF h3]
  note b = c4 [THEN conjunct2, THEN conjunct2, THEN conjunct2, THEN mp, OF h4]
  show ?thesis using h1 h2 h3 h4 a b by blast
qed


section \<open>Retrying after a timeout\<close>

text \<open>
  C5. The batch of three instruction sets whose first has no instructions, for which
  \<open>send\<close> signs two envelopes, with three attempts allowed. In the first run the first
  submission of index 0 times out and the poll sees slot 1150, the baseline 1000 plus 150:
  the handler fetches a fresh block hash and calls the re-sign callback with attempt 1 and
  index 0, the rebuild reads \<open>this.instructionSets[0]\<close>, the set without instructions, and
  fails with \<open>No instructions\<close> before it has replaced any envelope, and the second
  attempt submits the envelope with the old block hash again; so does index 1. In the
  second run the first submission of index 1 times out: the rebuild from index 1 reads
  \<open>this.instructionSets[1]\<close>, the set that index 0 has submitted, and the second attempt for
  index 1 submits an envelope built from that set; the third set is submitted at an index
  2 that the rebuild has added.
\<close>

theorem C5_retry_after_timeout:
  "trace (send sender_with_empty_set env_slow) =
     [GetSlotAndCurrentBlockHash,
      SignAllTransactions [Some (draft ''hash0'' item0), Some (draft ''hash0'' item1)],
      SendSigned 0 (envelope ''hash0'' item0),
      GetSlot, GetSlotAndCurrentBlockHash, OnReSign 1 0,
      SendSigned 0 (envelope ''hash0'' item0), OnProgress 0 ''sig1'',
      SendSigned 1 (envelope ''hash0'' item1), OnProgress 1 ''sig1'']
   \<and> trace (send sender_with_empty_set env_item1_slow) =
     [GetSlotAndCurrentBlockHash,
      SignAllTransactions [Some (draft ''hash0'' item0), Some (draft ''hash0'' item1)],
      SendSigned 0 (envelope ''hash0'' item0), OnProgress 0 ''sig1'',
      SendSigned 1 (envelope ''hash0'' item1),
      GetSlot, GetSlotAndCurrentBlockHash, OnReSign 1 1,
      SignAllTransactions [Some (draft ''hash1'' item0), Some (draft ''hash1'' item1)],
      SendSigned 1 (envelope ''hash1'' item0), OnProgress 1 ''sig1'',
      SendSigned 2 (envelope ''hash1'' item1), OnProgress 2 ''sig1'']
   \<and> envelope ''hash1'' item0 \<noteq> envelope ''hash1'' item1"
  by code_simp


section \<open>Failures that are not retried\<close>




section \<open>Progress when every first attempt succeeds\<close>

text \<open>
  C8. The batch of three instruction sets whose first has no instructions: \<open>send\<close> builds
  and signs two envelopes. Every submission is confirmed at its first attempt, so every
  index is submitted once and the failure callback is never called; the first
  confirmation is at slot 1150, the baseline 1000 plus 150. The rebuild that follows it
  lengthens the array of envelopes to three, and the progress callback is called three
  times, for the indices 0, 1 and 2, the first two for envelopes of the same instruction
  set.
\<close>

theorem C8_progress_after_rebuild:
  "envelopes sender_with_empty_set = 2
   \<and> filter is_send (trace (send sender_with_empty_set env_late)) =
       [SendSigned 0 (envelope ''hash0'' item0),
        SendSigned 1 (envelope ''hash1'' item0),
        SendSigned 2 (envelope ''hash1'' item1)]
   \<and> filter is_progress (trace (send sender_with_empty_set env_late)) =
       [OnProgress 0 ''sig0'', OnProgress 1 ''sig1'', OnProgress 2 ''sig1'']
   \<and> filter is_failure (trace (send sender_with_empty_set env_late)) = []"
  by code_simp


section \<open>The rebuild\<close>

text \<open>
  C9. The sender of the batch of three instruction sets whose first has no instructions,
  and the two envelopes \<open>send\<close> signs for it, the one at index 0 for the second set and the
  one at index 1 for the third. A rebuild from index 1 calls the re-sign callback with the
  attempt and 1, puts at index 1 an envelope built from \<open>this.instructionSets[1]\<close>, the
  second set, where the envelope of the third set was, adds an envelope at index 2, so
  that the array has three entries, and returns the envelope built from the second set. A
  rebuild from index 0 calls the re-sign callback and fails with \<open>No instructions\<close> at
  \<open>this.instructionSets[0]\<close>: no envelope is replaced and none is returned.
\<close>

theorem C9_rebuild_reads_unfiltered_sets:
  "signAndRebuildTransactionsFromInstructionSets sender_with_empty_set two_envelopes 1 ''hash1'' 0 =
     ([OnReSign 0 1,
       SignAllTransactions [Some (draft ''hash1'' item0), Some (draft ''hash1'' item1)]],
      [envelope ''hash0'' item0, envelope ''hash1'' item0, envelope ''hash1'' item1],
      Inr (envelope ''hash1'' item0))
   \<and> envelope ''hash1'' item0 \<noteq> envelope ''hash1'' item1
   \<and> signAndRebuildTransactionsFromInstructionSets sender_with_empty_set two_envelopes 0 ''hash1'' 1 =
     ([OnReSign 1 0],
      [envelope ''hash0'' item0, envelope ''hash0'' item1],
      Inl (JsError ''No instructions''))"
  by code_simp


section \<open>A confirmation whose record is not found\<close>

text \<open>
  C10. When the submission is confirmed and \<open>getConfirmedTransaction\<close> returns null,
  \<open>sendSignedTransaction\<close> returns the transaction id with slot 0. With a baseline that is
  not negative, the attempt then ends after the progress callback: nothing is fetched,
  nothing is rebuilt and the array of envelopes is unchanged.
\<close>

theorem C10_unknown_slot:
  assumes "serialize c = None" and "sendRawTransaction c = Inr txid"
    and "confirmTransaction c = Inr None" and "getConfirmedTransaction c = Inr None"
  shows "sendSignedTransaction t c = Inr (Sent txid 0)
       \<and> (tx st = Some t \<and> submissionAt env i (Suc (retryNumber st)) = c \<and> 0 \<le> slot st \<longrightarrow>
            attempt s env i st =
              (Returned,
               st\<lparr>retryNumber := Suc (retryNumber st),
                  events := events st @ [SendSigned i (tx st), OnProgress i txid],
                  successfulItems := Suc (successfulItems st)\<rparr>))"
proof -
  have sent: "sendSignedTransaction t c = Inr (Sent txid 0)"
    using assms by (simp add: sendSignedTransaction_def sendAndConfirmRawTransactionEx_def)
  show ?thesis
    using sent by (auto simp: attempt_def submit_def counted_def Let_def)
qed


theorem C10_witness:
  "serialize confirmsUnseen = None
   \<and> sendRawTransaction confirmsUnseen = Inr ''sig''
   \<and> confirmTransaction confirmsUnseen = Inr None
   \<and> getConfirmedTransaction confirmsUnseen = Inr None
   \<and> tx start = Some (signed ''hash0'' item0)
   \<and> submissionAt env_unseen 0 (Suc (retryNumber start)) = confirmsUnseen
   \<and> 0 \<le> slot start
   \<and> sendSignedTransaction (signed ''hash0'' item0) confirmsUnseen
       = Inr (Sent ''sig'' 0)
   \<and> attempt sender_three_attempts env_unseen 0 start =
       (Returned,
        start\<lparr>retryNumber := Suc (retryNumber start),
              events := events start @ [SendSigned 0 (tx start), OnProgress 0 ''sig''],
              successfulItems := Suc (successfulItems start)\<rparr>)"
proof -
  have h1: "serialize confirmsUnseen = None" by code_simp
  have h2: "sendRawTransaction confirmsUnseen = Inr ''sig''" by code_simp
  have h3: "confirmTransaction confirmsUnseen = Inr None" by code_simp
  have h4: "getConfirmedTransaction confirmsUnseen = Inr None" by code_simp
  have h5: "tx start = Some (signed ''hash0'' item0)" by code_simp
  have h6: "submissionAt env_unseen 0 (Suc (retryNumber start)) = confirmsUnseen" by code_simp
  have h7: "0 \<le> slot start" by code_simp
  note c10 = C10_unknown_slot [OF h1 h2 h3 h4,
      of "signed ''hash0'' item0" start env_unseen 0
         sender_three_attempts]
  note a = c10 [THEN conjunct1]
  note b = c10 [THEN conjunct2, THEN mp, OF conjI [OF h5 conjI [OF h6 h7]]]
  show ?thesis using h1 h2 h3 h4 h5 h6 h7 a b by blast
qed


end
